theory Spec2Isabelle
  imports Complex_Main
begin

section \<open>Data model\<close>

text \<open>
  Timestamps are ISO strings in the source and are only ever compared or
  subtracted after \<^verbatim>\<open>new Date(s).getTime()\<close>. A timestamp is modelled by that
  value: the integer number of milliseconds since the epoch. A column that is
  \<^verbatim>\<open>null\<close> (or absent) is \<open>None\<close>; \<^verbatim>\<open>duration_seconds\<close> is an integer column, so
  \<^verbatim>\<open>typeof r.duration_seconds === 'number'\<close> is \<open>duration_seconds r \<noteq> None\<close>.
\<close>

type_synonym timestamp = int

record time_entry =
  id_entry :: nat
  task_id :: nat
  start_at :: timestamp
  end_at :: "timestamp option"
  duration_seconds :: "int option"

record task =
  id_task :: nat
  status :: string
  estimated_duration_seconds :: "int option"

text \<open>
  The two kinds of error value the service hands back: the error object of a
  failed request, and \<^verbatim>\<open>new Error(msg)\<close> made by the service itself.
\<close>

datatype error = PostgrestError string | Error string

section \<open>The hosted database\<close>

text \<open>
  The database is an external collaborator. It holds the two tables the timer
  touches. Every request resolves to \<^verbatim>\<open>{ data, error }\<close> and never throws; a
  request that fails has no effect on the tables. Which requests fail is not
  decided by the program, so the state carries a script \<open>faults\<close> with the
  outcome of the upcoming requests, one element per request (\<open>Some msg\<close>: the
  request fails with that message); once the script is used up every request
  succeeds.
\<close>

record database =
  time_entries :: "time_entry list"
  tasks :: "task list"
  faults :: "string option list"

definition request :: "database \<Rightarrow> string option \<times> database" where
  "request db = (case faults db of
                   [] \<Rightarrow> (None, db)
                 | f # fs \<Rightarrow> (f, db\<lparr>faults := fs\<rparr>))"

text \<open>
  \<^verbatim>\<open>from('time_entries').select('*').eq('task_id', taskId).order('start_at', { ascending: true })\<close>
\<close>

definition select_entries :: "database \<Rightarrow> nat \<Rightarrow> (error + time_entry list) \<times> database" where
  "select_entries db taskId =
     (case request db of
        (Some msg, db') \<Rightarrow> (Inl (PostgrestError msg), db')
      | (None, db') \<Rightarrow>
          (Inr (sort_key start_at (filter (\<lambda>r. task_id r = taskId) (time_entries db'))), db'))"

text \<open>The same query with \<^verbatim>\<open>.is('end_at', null)\<close> added.\<close>

definition select_running :: "database \<Rightarrow> nat \<Rightarrow> (error + time_entry list) \<times> database" where
  "select_running db taskId =
     (case request db of
        (Some msg, db') \<Rightarrow> (Inl (PostgrestError msg), db')
      | (None, db') \<Rightarrow>
          (Inr (sort_key start_at
                  (filter (\<lambda>r. task_id r = taskId \<and> end_at r = None) (time_entries db'))), db'))"

text \<open>
  \<^verbatim>\<open>from('time_entries').select('*').eq('id', entryId).maybeSingle()\<close>; \<^verbatim>\<open>id\<close> is the
  primary key, so at most one row matches, and no row gives \<^verbatim>\<open>data: null\<close>
  without an error.
\<close>

definition select_entry :: "database \<Rightarrow> nat \<Rightarrow> (error + time_entry option) \<times> database" where
  "select_entry db entryId =
     (case request db of
        (Some msg, db') \<Rightarrow> (Inl (PostgrestError msg), db')
      | (None, db') \<Rightarrow> (Inr (find (\<lambda>r. id_entry r = entryId) (time_entries db')), db'))"

text \<open>
  \<^verbatim>\<open>from('time_entries').insert({ task_id, start_at }).select('*').maybeSingle()\<close>: the
  database assigns the identifier and leaves the other columns \<^verbatim>\<open>null\<close>.
\<close>

definition fresh_id :: "time_entry list \<Rightarrow> nat" where
  "fresh_id rows = Suc (fold max (map id_entry rows) 0)"

definition insert_entry ::
  "database \<Rightarrow> nat \<Rightarrow> timestamp \<Rightarrow> (error + time_entry option) \<times> database" where
  "insert_entry db taskId startAt =
     (case request db of
        (Some msg, db') \<Rightarrow> (Inl (PostgrestError msg), db')
      | (None, db') \<Rightarrow>
          (let row = \<lparr>id_entry = fresh_id (time_entries db'), task_id = taskId,
                      start_at = startAt, end_at = None, duration_seconds = None\<rparr>
           in (Inr (Some row), db'\<lparr>time_entries := time_entries db' @ [row]\<rparr>)))"

text \<open>
  \<^verbatim>\<open>from('time_entries').update({ end_at, duration_seconds }).eq('id', entryId).select('*').maybeSingle()\<close>:
  one request that writes both columns of the matching row and returns it.
\<close>

definition update_entry ::
  "database \<Rightarrow> nat \<Rightarrow> timestamp \<Rightarrow> int \<Rightarrow> (error + time_entry option) \<times> database" where
  "update_entry db entryId endAt dur =
     (case request db of
        (Some msg, db') \<Rightarrow> (Inl (PostgrestError msg), db')
      | (None, db') \<Rightarrow>
          (let rows = map (\<lambda>r. if id_entry r = entryId
                                 then r\<lparr>end_at := Some endAt, duration_seconds := Some dur\<rparr>
                                 else r) (time_entries db')
           in (Inr (find (\<lambda>r. id_entry r = entryId) rows), db'\<lparr>time_entries := rows\<rparr>)))"

text \<open>\<^verbatim>\<open>from('tasks').update({ status }).eq('id', taskId)\<close>\<close>

definition update_task_status :: "database \<Rightarrow> nat \<Rightarrow> string \<Rightarrow> error option \<times> database" where
  "update_task_status db taskId s =
     (case request db of
        (Some msg, db') \<Rightarrow> (Some (PostgrestError msg), db')
      | (None, db') \<Rightarrow>
          (None, db'\<lparr>tasks := map (\<lambda>t. if id_task t = taskId then t\<lparr>status := s\<rparr> else t)
                                   (tasks db')\<rparr>))"

text \<open>\<^verbatim>\<open>from('tasks').update({ estimated_duration_seconds }).eq('id', taskId)\<close>\<close>

definition update_task_estimate :: "database \<Rightarrow> nat \<Rightarrow> int \<Rightarrow> error option \<times> database" where
  "update_task_estimate db taskId secs =
     (case request db of
        (Some msg, db') \<Rightarrow> (Some (PostgrestError msg), db')
      | (None, db') \<Rightarrow>
          (None, db'\<lparr>tasks := map (\<lambda>t. if id_task t = taskId
                                        then t\<lparr>estimated_duration_seconds := Some secs\<rparr>
                                        else t) (tasks db')\<rparr>))"

section \<open>JavaScript helpers\<close>

text \<open>
  \<^verbatim>\<open>Math.round\<close> rounds to the nearest integer, a half towards plus infinity.
\<close>

definition Math_round :: "rat \<Rightarrow> int" where
  "Math_round x = \<lfloor>x + 1 / 2\<rfloor>"

text \<open>
  \<^verbatim>\<open>Math.round((new Date(b).getTime() - new Date(a).getTime()) / 1000)\<close>
\<close>

definition round_seconds :: "timestamp \<Rightarrow> timestamp \<Rightarrow> int" where
  "round_seconds a b = Math_round (of_int (b - a) / 1000)"

text \<open>The decimal text of a non-negative integer, as a template literal prints it.\<close>

fun string_of_nat :: "nat \<Rightarrow> string" where
  "string_of_nat n =
     (if n < 10 then [''0123456789'' ! n]
      else string_of_nat (n div 10) @ [''0123456789'' ! (n mod 10)])"

text \<open>
  \<^verbatim>\<open>xs.reduce(f)\<close> without an initial value: a TypeError on the empty array
  (\<open>None\<close>), otherwise a left fold that starts from the first element.
\<close>

fun reduce :: "('a \<Rightarrow> 'a \<Rightarrow> 'a) \<Rightarrow> 'a list \<Rightarrow> 'a option" where
  "reduce f [] = None"
| "reduce f (x # xs) = Some (foldl f x xs)"

section \<open>timerService.js\<close>

record aggregate =
  baseSeconds :: int
  runningEntry :: "time_entry option"
  entries :: "time_entry list"
  warnings :: "string list"
  error :: "error option"

text \<open>\<^verbatim>\<open>entries.filter((r) => r.end_at === null || r.end_at === undefined)\<close>\<close>

definition runningRows :: "time_entry list \<Rightarrow> time_entry list" where
  "runningRows es = filter (\<lambda>r. end_at r = None) es"

text \<open>
  The \<^verbatim>\<open>forEach\<close> loop that accumulates \<^verbatim>\<open>baseSeconds\<close>, starting from 0. The test is
  \<^verbatim>\<open>r.end_at && typeof r.duration_seconds === 'number'\<close>; on an integer,
  \<^verbatim>\<open>r.duration_seconds || 0\<close> is the integer itself.
\<close>

definition sumBase :: "time_entry list \<Rightarrow> int" where
  "sumBase es =
     fold (\<lambda>r acc. case (end_at r, duration_seconds r) of
                      (Some _, Some d) \<Rightarrow> acc + d
                    | _ \<Rightarrow> acc) es 0"

text \<open>
  The body of \<^verbatim>\<open>getAggregate\<close> once the rows have been fetched: the running rows,
  the pick among them, the warnings and the sum.
\<close>

definition aggregate_rows :: "time_entry list \<Rightarrow> aggregate" where
  "aggregate_rows es =
     (let rr = runningRows es;
          (re, ws) =
            (if length rr = 1 then (Some (rr ! 0), [])
             else if length rr > 1 then
               (reduce (\<lambda>a b. if start_at a > start_at b then a else b) rr,
                [''multiple_running_entries:'' @ string_of_nat (length rr)])
             else (None, []))
      in \<lparr>baseSeconds = sumBase es, runningEntry = re, entries = es, warnings = ws,
          error = None\<rparr>)"

definition getAggregate :: "database \<Rightarrow> nat \<Rightarrow> aggregate \<times> database" where
  "getAggregate db taskId =
     (case select_entries db taskId of
        (Inl entriesErr, db') \<Rightarrow>
          (\<lparr>baseSeconds = 0, runningEntry = None, entries = [],
            warnings = [''entries_fetch_error''], error = Some entriesErr\<rparr>, db')
      | (Inr es, db') \<Rightarrow> (aggregate_rows es, db'))"

text \<open>
  The replies \<^verbatim>\<open>{ data, error }\<close> of \<^verbatim>\<open>stopEntry\<close> and
  \<^verbatim>\<open>{ data, created, error, warnings }\<close> of \<^verbatim>\<open>createEntry\<close>.
\<close>

record reply =
  data :: "time_entry option"
  error_reply :: "error option"

record create_reply = reply +
  created :: bool
  warnings_reply :: "string list"

text \<open>
  \<open>now\<close> is the reading of the clock, \<^verbatim>\<open>new Date()\<close>, at the one place where
  the function reads it.
\<close>

definition createEntry :: "database \<Rightarrow> nat \<Rightarrow> timestamp \<Rightarrow> create_reply \<times> database" where
  "createEntry db taskId now =
     (case select_running db taskId of
        (Inl fetchErr, db1) \<Rightarrow>
          (\<lparr>data = None, error_reply = Some fetchErr, created = False,
            warnings_reply = [''fetch-running-failed'']\<rparr>, db1)
      | (Inr rr, db1) \<Rightarrow>
          if length rr > 0 then
            (\<lparr>data = Some (rr ! (length rr - 1)), error_reply = None, created = False,
              warnings_reply =
                (if length rr > 1
                 then [''multiple_running_entries:'' @ string_of_nat (length rr)]
                 else [])\<rparr>, db1)
          else
            (case insert_entry db1 taskId now of
               (Inl e, db2) \<Rightarrow>
                 (\<lparr>data = None, error_reply = Some e, created = False,
                   warnings_reply = []\<rparr>, db2)
             | (Inr d, db2) \<Rightarrow>
                 (\<lparr>data = d, error_reply = None, created = (d \<noteq> None),
                   warnings_reply = []\<rparr>, db2)))"

text \<open>\<^verbatim>\<open>const end_at = endAtIso || new Date().toISOString()\<close>\<close>

definition resolve_end :: "timestamp option \<Rightarrow> timestamp \<Rightarrow> timestamp" where
  "resolve_end endAtIso now = (case endAtIso of Some e \<Rightarrow> e | None \<Rightarrow> now)"

definition stopEntry ::
  "database \<Rightarrow> nat \<Rightarrow> timestamp option \<Rightarrow> timestamp \<Rightarrow> reply \<times> database" where
  "stopEntry db entryId endAtIso now =
     (let endAt = resolve_end endAtIso now
      in case select_entry db entryId of
           (Inl fetchErr, db1) \<Rightarrow> (\<lparr>data = None, error_reply = Some fetchErr\<rparr>, db1)
         | (Inr None, db1) \<Rightarrow>
             (\<lparr>data = None, error_reply = Some (Error ''Entry not found'')\<rparr>, db1)
         | (Inr (Some existing), db1) \<Rightarrow>
             (let dur = max 0 (round_seconds (start_at existing) endAt)
              in case update_entry db1 entryId endAt dur of
                   (Inl e, db2) \<Rightarrow> (\<lparr>data = None, error_reply = Some e\<rparr>, db2)
                 | (Inr d, db2) \<Rightarrow> (\<lparr>data = d, error_reply = None\<rparr>, db2)))"

section \<open>TimerOverlay.jsx\<close>

record remaining_result =
  remaining :: int
  elapsed :: int
  runningSegment :: int

text \<open>
  \<open>now\<close> is \<^verbatim>\<open>Date.now()\<close>. \<^verbatim>\<open>start_at\<close> is never null, so the test
  \<^verbatim>\<open>entry && entry.start_at && !entry.end_at\<close> is: there is an entry and it has no
  \<^verbatim>\<open>end_at\<close>. \<^verbatim>\<open>target || 0\<close> turns a missing target into 0.
\<close>

definition computeRemaining ::
  "time_entry option \<Rightarrow> int \<Rightarrow> int option \<Rightarrow> timestamp \<Rightarrow> remaining_result" where
  "computeRemaining entry base target now =
     (let seg = (case entry of
                   None \<Rightarrow> 0
                 | Some e \<Rightarrow> if end_at e = None then round_seconds (start_at e) now else 0);
          el = base + seg;
          rem = max 0 ((case target of Some t \<Rightarrow> t | None \<Rightarrow> 0) - el)
      in \<lparr>remaining = rem, elapsed = el, runningSegment = seg\<rparr>)"

text \<open>
  The state of the component that the start and stop handlers read or write.
  \<open>localTarget\<close> is the \<^verbatim>\<open>localStorage\<close> slot \<^verbatim>\<open>dltr_timer_target_<task.id>\<close>.
  \<open>ticker\<close> holds the values \<^verbatim>\<open>(entry, base, target)\<close> that the running interval
  has captured (\<open>None\<close>: no interval has been started); the displayed number is
  always these values evaluated at the current reading of the clock, see
  \<open>displayAt\<close>. The \<^verbatim>\<open>loading\<close> flag only disables the buttons and is left out.
\<close>

datatype alert = PleaseSetTarget | CouldNotStart | CouldNotStop

record overlay =
  entries_ui :: "time_entry list"
  runningEntry_ui :: "time_entry option"
  baseRef :: int
  isRunning :: bool
  targetSeconds :: "int option"
  persistTargetToTask :: bool
  localTarget :: "int option"
  ticker :: "(time_entry option \<times> int \<times> int option) option"
  alerts :: "alert list"

text \<open>What \<^verbatim>\<open>startTicker(entry, base, target)\<close> shows at the clock reading \<open>now\<close>.\<close>

definition displayAt :: "time_entry option \<times> int \<times> int option \<Rightarrow> timestamp \<Rightarrow> int" where
  "displayAt c now =
     (case c of (entry, base, target) \<Rightarrow>
        (case target of
           Some t \<Rightarrow> remaining (computeRemaining entry base (Some t) now)
         | None \<Rightarrow> elapsed (computeRemaining entry base None now)))"

definition getEffectiveTarget :: "overlay \<Rightarrow> task \<Rightarrow> int option" where
  "getEffectiveTarget ui t =
     (let fromTask = (case estimated_duration_seconds t of
                        Some e \<Rightarrow> if e \<noteq> 0 then Some e else None
                      | None \<Rightarrow> None)
      in case targetSeconds ui of
           Some s \<Rightarrow> Some s
         | None \<Rightarrow>
             (case localTarget ui of
                Some n \<Rightarrow> if n > 0 then Some n else fromTask
              | None \<Rightarrow> fromTask))"

definition reloadAggregate :: "overlay \<Rightarrow> database \<Rightarrow> task \<Rightarrow> overlay \<times> database" where
  "reloadAggregate ui db t =
     (case getAggregate db (id_task t) of
        (agg, db') \<Rightarrow>
          (ui\<lparr>baseRef := baseSeconds agg,
              runningEntry_ui := runningEntry agg,
              entries_ui := entries agg,
              isRunning := (runningEntry agg \<noteq> None),
              ticker := Some (runningEntry agg, baseSeconds agg, targetSeconds ui)\<rparr>, db'))"

definition handleStart ::
  "overlay \<Rightarrow> database \<Rightarrow> task \<Rightarrow> timestamp \<Rightarrow> overlay \<times> database" where
  "handleStart ui db t now =
     (case getEffectiveTarget ui t of
        None \<Rightarrow> (ui\<lparr>alerts := alerts ui @ [PleaseSetTarget]\<rparr>, db)
      | Some effectiveTarget \<Rightarrow>
          if effectiveTarget = 0 then (ui\<lparr>alerts := alerts ui @ [PleaseSetTarget]\<rparr>, db)
          else
            (case getAggregate db (id_task t) of
               (agg, db1) \<Rightarrow>
                 (let authoritativeBase = baseSeconds agg;
                      remainingBefore = max 0 (effectiveTarget - authoritativeBase)
                  in if remainingBefore \<le> 0 then
                       (case update_task_status db1 (id_task t) ''completed'' of
                          (_, db2) \<Rightarrow> reloadAggregate ui db2 t)
                     else
                       (case createEntry db1 (id_task t) now of
                          (r, db2) \<Rightarrow>
                            (case error_reply r of
                               Some e \<Rightarrow> (ui\<lparr>alerts := alerts ui @ [CouldNotStart]\<rparr>, db2)
                             | None \<Rightarrow>
                                 (let ui' = ui\<lparr>runningEntry_ui := data r,
                                               isRunning := (data r \<noteq> None),
                                               ticker := Some (data r, authoritativeBase,
                                                               Some effectiveTarget),
                                               localTarget := Some effectiveTarget,
                                               targetSeconds := Some effectiveTarget\<rparr>
                                  in if persistTargetToTask ui
                                     then (ui', snd (update_task_estimate db2 (id_task t)
                                                       effectiveTarget))
                                     else (ui', db2)))))))"

definition handleStop ::
  "overlay \<Rightarrow> database \<Rightarrow> task \<Rightarrow> timestamp \<Rightarrow> overlay \<times> database" where
  "handleStop ui db t now =
     (case runningEntry_ui ui of
        None \<Rightarrow> (ui, db)
      | Some re \<Rightarrow>
          (case stopEntry db (id_entry re) None now of
             (_, db1) \<Rightarrow> reloadAggregate ui db1 t))"

section \<open>Sequential runs of start and stop\<close>

definition open_entries :: "database \<Rightarrow> nat \<Rightarrow> time_entry list" where
  "open_entries db taskId =
     filter (\<lambda>r. task_id r = taskId \<and> end_at r = None) (time_entries db)"

definition at_most_one_open :: "database \<Rightarrow> bool" where
  "at_most_one_open db =
     list_all (\<lambda>r. length (open_entries db (task_id r)) \<le> 1) (time_entries db)"

text \<open>One call of a start or stop operation, of the service or of the overlay.\<close>

inductive step :: "database \<Rightarrow> database \<Rightarrow> bool" where
  step_createEntry: "step db (snd (createEntry db taskId now))"
| step_stopEntry: "step db (snd (stopEntry db entryId endAtIso now))"
| step_handleStart: "step db (snd (handleStart ui db t now))"
| step_handleStop: "step db (snd (handleStop ui db t now))"

text \<open>The next \<open>n\<close> requests succeed.\<close>

definition requests_ok :: "nat \<Rightarrow> database \<Rightarrow> bool" where
  "requests_ok n db = list_all (\<lambda>f. f = None) (take n (faults db))"

text \<open>
  The table after the update request of \<^verbatim>\<open>stopEntry\<close> has gone through: the row
  \<open>i\<close> with both columns written, every other row as it was.
\<close>

definition stamp ::
  "nat \<Rightarrow> timestamp option \<Rightarrow> int option \<Rightarrow> time_entry list \<Rightarrow> time_entry list" where
  "stamp i x y rows =
     map (\<lambda>r. if id_entry r = i then r\<lparr>end_at := x, duration_seconds := y\<rparr> else r) rows"

section \<open>Example data\<close>

definition ex_closed :: time_entry where
  "ex_closed = \<lparr>id_entry = 1, task_id = 7, start_at = 0, end_at = Some 3600000,
                 duration_seconds = Some 3600\<rparr>"

definition ex_unmeasured :: time_entry where
  "ex_unmeasured = \<lparr>id_entry = 2, task_id = 7, start_at = 4000000, end_at = Some 5000000,
                     duration_seconds = None\<rparr>"

definition ex_other :: time_entry where
  "ex_other = \<lparr>id_entry = 3, task_id = 8, start_at = 4000000, end_at = Some 5000000,
                duration_seconds = Some 1000\<rparr>"

definition ex_running :: time_entry where
  "ex_running = \<lparr>id_entry = 4, task_id = 7, start_at = 6000000, end_at = None,
                  duration_seconds = None\<rparr>"

definition ex_running2 :: time_entry where
  "ex_running2 = \<lparr>id_entry = 5, task_id = 7, start_at = 7000000, end_at = None,
                   duration_seconds = None\<rparr>"

definition ex_db :: database where
  "ex_db = \<lparr>time_entries = [ex_closed, ex_unmeasured, ex_other, ex_running],
            tasks = [\<lparr>id_task = 7, status = ''pending'', estimated_duration_seconds = None\<rparr>],
            faults = []\<rparr>"

definition ex_task :: task where
  "ex_task = \<lparr>id_task = 7, status = ''pending'', estimated_duration_seconds = None\<rparr>"

definition ex_done_db :: database where
  "ex_done_db = \<lparr>time_entries = [ex_closed], tasks = [ex_task], faults = []\<rparr>"

definition ex_ui :: overlay where
  "ex_ui = \<lparr>entries_ui = [], runningEntry_ui = None, baseRef = 0, isRunning = False,
            targetSeconds = Some 3000, persistTargetToTask = False, localTarget = None,
            ticker = None, alerts = []\<rparr>"

lemmas ex_defs = ex_closed_def ex_unmeasured_def ex_other_def ex_running_def ex_running2_def
  ex_db_def ex_task_def ex_done_db_def ex_ui_def

section \<open>The aggregate\<close>

declare string_of_nat.simps [simp del]

lemma fold_base_acc:
  "fold (\<lambda>r acc. case (end_at r, duration_seconds r) of
                    (Some _, Some d) \<Rightarrow> acc + d
                  | _ \<Rightarrow> acc) es a
   = a + (\<Sum>r\<leftarrow>filter (\<lambda>r. end_at r \<noteq> None \<and> duration_seconds r \<noteq> None) es.
            the (duration_seconds r))"
  by (induction es arbitrary: a) (auto split: option.splits)

lemma sumBase_eq:
  "sumBase es = (\<Sum>r\<leftarrow>filter (\<lambda>r. end_at r \<noteq> None \<and> duration_seconds r \<noteq> None) es.
                   the (duration_seconds r))"
  unfolding sumBase_def by (subst fold_base_acc) simp

lemma getAggregate_fetched:
  "fst (select_entries db taskId) = Inr es \<Longrightarrow> fst (getAggregate db taskId) = aggregate_rows es"
  by (cases "select_entries db taskId") (simp add: getAggregate_def)

lemma baseSeconds_aggregate_rows: "baseSeconds (aggregate_rows es) = sumBase es"
  by (simp add: aggregate_rows_def Let_def split: prod.splits)

text \<open>
  Claim C1. Whatever rows are fetched for a task, \<^verbatim>\<open>baseSeconds\<close> is the sum of
  \<^verbatim>\<open>duration_seconds\<close> over exactly the rows that have an \<^verbatim>\<open>end_at\<close> and a numeric
  \<^verbatim>\<open>duration_seconds\<close>. A row without \<^verbatim>\<open>end_at\<close> (running), or with \<^verbatim>\<open>end_at\<close> but
  without \<^verbatim>\<open>duration_seconds\<close>, adds nothing: taking it out of the list leaves the sum
  as it is.
\<close>

theorem getAggregate_baseSeconds:
  "baseSeconds (aggregate_rows es) =
     (\<Sum>r\<leftarrow>filter (\<lambda>r. end_at r \<noteq> None \<and> duration_seconds r \<noteq> None) es.
        the (duration_seconds r))
   \<and> (fst (select_entries db taskId) = Inr es \<longrightarrow>
        baseSeconds (fst (getAggregate db taskId)) =
          (\<Sum>r\<leftarrow>filter (\<lambda>r. end_at r \<noteq> None \<and> duration_seconds r \<noteq> None) es.
             the (duration_seconds r)))
   \<and> (end_at r = None \<or> duration_seconds r = None \<longrightarrow>
        baseSeconds (aggregate_rows (xs @ r # ys)) = baseSeconds (aggregate_rows (xs @ ys)))"
  by (simp add: getAggregate_fetched baseSeconds_aggregate_rows sumBase_eq)

theorem getAggregate_baseSeconds_witness:
  "fst (select_entries ex_db 7) = Inr [ex_closed, ex_unmeasured, ex_running]
   \<and> baseSeconds (fst (getAggregate ex_db 7)) = 3600
   \<and> (end_at ex_unmeasured = None \<or> duration_seconds ex_unmeasured = None)
   \<and> baseSeconds (aggregate_rows ([ex_closed] @ ex_unmeasured # [ex_running]))
       = baseSeconds (aggregate_rows ([ex_closed] @ [ex_running]))"
proof -
  have fetched: "fst (select_entries ex_db 7) = Inr [ex_closed, ex_unmeasured, ex_running]"
    by (simp add: select_entries_def request_def ex_defs)
  have missing: "end_at ex_unmeasured = None \<or> duration_seconds ex_unmeasured = None"
    by (simp add: ex_defs)
  show ?thesis
    using fetched missing
      getAggregate_baseSeconds [where es = "[ex_closed, ex_unmeasured, ex_running]"
        and db = ex_db and taskId = 7 and r = ex_unmeasured and xs = "[ex_closed]"
        and ys = "[ex_running]"]
    by (simp add: ex_defs)
qed

subsection \<open>The running entry\<close>

lemma foldl_latest:
  "foldl (\<lambda>a b. if start_at a > start_at b then a else b) x xs \<in> set (x # xs)
   \<and> (\<forall>y\<in>set (x # xs).
        start_at y \<le> start_at (foldl (\<lambda>a b. if start_at a > start_at b then a else b) x xs))"
proof (induction xs arbitrary: x)
  case Nil
  show ?case by simp
next
  case (Cons z zs)
  show ?case
  proof (cases "start_at x > start_at z")
    case True
    with Cons.IH [of x] show ?thesis by auto
  next
    case False
    with Cons.IH [of z] show ?thesis by fastforce
  qed
qed

lemma reduce_latest:
  assumes "rr \<noteq> []"
  shows "\<exists>r. reduce (\<lambda>a b. if start_at a > start_at b then a else b) rr = Some r
           \<and> r \<in> set rr \<and> (\<forall>y\<in>set rr. start_at y \<le> start_at r)"
proof (cases rr)
  case Nil
  with assms show ?thesis by simp
next
  case (Cons x xs)
  with foldl_latest [of x xs] show ?thesis by simp
qed

lemma aggregate_rows_many:
  assumes "length (runningRows es) > 1"
  shows "runningEntry (aggregate_rows es) =
           reduce (\<lambda>a b. if start_at a > start_at b then a else b) (runningRows es)"
    and "warnings (aggregate_rows es) =
           [''multiple_running_entries:'' @ string_of_nat (length (runningRows es))]"
  using assms by (simp_all add: aggregate_rows_def Let_def)

lemma aggregate_rows_one:
  assumes "length (runningRows es) = 1"
  shows "runningEntry (aggregate_rows es) = Some (hd (runningRows es))"
    and "warnings (aggregate_rows es) = []"
  using assms by (cases "runningRows es"; simp add: aggregate_rows_def Let_def)+

lemma aggregate_rows_none:
  assumes "runningRows es = []"
  shows "runningEntry (aggregate_rows es) = None"
    and "warnings (aggregate_rows es) = []"
  using assms by (simp_all add: aggregate_rows_def Let_def)

text \<open>
  Claim C4. With more than one open row, \<^verbatim>\<open>runningEntry\<close> is an open row whose
  \<^verbatim>\<open>start_at\<close> is the greatest among the open rows, and \<^verbatim>\<open>warnings\<close> is the single
  string \<^verbatim>\<open>multiple_running_entries:<count>\<close>, the count being the number of open
  rows. With exactly one open row that row is returned and there is no warning; with
  none, \<^verbatim>\<open>runningEntry\<close> is \<^verbatim>\<open>null\<close>.
\<close>

theorem getAggregate_runningEntry:
  "(length (runningRows es) > 1 \<longrightarrow>
      (\<exists>r. runningEntry (aggregate_rows es) = Some r \<and> r \<in> set es \<and> end_at r = None
          \<and> (\<forall>y\<in>set es. end_at y = None \<longrightarrow> start_at y \<le> start_at r))
      \<and> warnings (aggregate_rows es) =
          [''multiple_running_entries:'' @ string_of_nat (length (runningRows es))])
   \<and> (length (runningRows es) = 1 \<longrightarrow>
        runningEntry (aggregate_rows es) = Some (hd (runningRows es))
        \<and> warnings (aggregate_rows es) = [])
   \<and> (runningRows es = [] \<longrightarrow>
        runningEntry (aggregate_rows es) = None \<and> warnings (aggregate_rows es) = [])
   \<and> (fst (select_entries db taskId) = Inr es \<longrightarrow>
        fst (getAggregate db taskId) = aggregate_rows es)"
proof -
  have many: "\<exists>r. runningEntry (aggregate_rows es) = Some r \<and> r \<in> set es \<and> end_at r = None
          \<and> (\<forall>y\<in>set es. end_at y = None \<longrightarrow> start_at y \<le> start_at r)"
    if h: "length (runningRows es) > 1"
  proof -
    from h have "runningRows es \<noteq> []" by auto
    from reduce_latest [OF this] obtain r where
      r: "reduce (\<lambda>a b. if start_at a > start_at b then a else b) (runningRows es) = Some r"
         "r \<in> set (runningRows es)" "\<forall>y\<in>set (runningRows es). start_at y \<le> start_at r"
      by blast
    from r(2) have "r \<in> set es" "end_at r = None" by (simp_all add: runningRows_def)
    moreover from r(3) have "\<forall>y\<in>set es. end_at y = None \<longrightarrow> start_at y \<le> start_at r"
      by (simp add: runningRows_def)
    ultimately show ?thesis using r(1) aggregate_rows_many(1) [OF h] by simp
  qed
  show ?thesis
    using many aggregate_rows_many(2) aggregate_rows_one aggregate_rows_none getAggregate_fetched
    by blast
qed

theorem getAggregate_runningEntry_witness:
  "length (runningRows [ex_running, ex_closed, ex_running2]) > 1
   \<and> runningEntry (aggregate_rows [ex_running, ex_closed, ex_running2]) = Some ex_running2
   \<and> warnings (aggregate_rows [ex_running, ex_closed, ex_running2])
       = [''multiple_running_entries:2'']
   \<and> length (runningRows [ex_closed, ex_unmeasured, ex_running]) = 1
   \<and> runningEntry (aggregate_rows [ex_closed, ex_unmeasured, ex_running]) = Some ex_running
   \<and> warnings (aggregate_rows [ex_closed, ex_unmeasured, ex_running]) = []
   \<and> runningRows [ex_closed] = []
   \<and> runningEntry (aggregate_rows [ex_closed]) = None
   \<and> warnings (aggregate_rows [ex_closed]) = []
   \<and> fst (select_entries ex_db 7) = Inr [ex_closed, ex_unmeasured, ex_running]
   \<and> fst (getAggregate ex_db 7) = aggregate_rows [ex_closed, ex_unmeasured, ex_running]"
proof -
  have two: "length (runningRows [ex_running, ex_closed, ex_running2]) > 1"
    by (simp add: runningRows_def ex_defs)
  have one: "length (runningRows [ex_closed, ex_unmeasured, ex_running]) = 1"
    by (simp add: runningRows_def ex_defs)
  have none: "runningRows [ex_closed] = []"
    by (simp add: runningRows_def ex_defs)
  have fetched: "fst (select_entries ex_db 7) = Inr [ex_closed, ex_unmeasured, ex_running]"
    by (simp add: select_entries_def request_def ex_defs)
  have latest: "runningEntry (aggregate_rows [ex_running, ex_closed, ex_running2])
                  = Some ex_running2"
    by (simp add: aggregate_rows_def runningRows_def ex_defs)
  have count: "string_of_nat (length (runningRows [ex_running, ex_closed, ex_running2])) = ''2''"
    by (simp add: runningRows_def ex_defs string_of_nat.simps)
  show ?thesis
    using two one none fetched latest count
      getAggregate_runningEntry [where es = "[ex_running, ex_closed, ex_running2]"]
      getAggregate_runningEntry [where es = "[ex_closed, ex_unmeasured, ex_running]"
        and db = ex_db and taskId = 7]
      getAggregate_runningEntry [where es = "[ex_closed]"]
    by (simp add: runningRows_def ex_defs)
qed

subsection \<open>A failed fetch\<close>

text \<open>
  Claim C8. When the list request fails, \<^verbatim>\<open>getAggregate\<close> returns a value, not an
  exception: the zeroed aggregate with the warning \<^verbatim>\<open>entries_fetch_error\<close> and the
  error of the request; the tables are untouched.
\<close>

theorem getAggregate_fetch_error:
  "faults db = Some msg # fs \<Longrightarrow>
     getAggregate db taskId =
       (\<lparr>baseSeconds = 0, runningEntry = None, entries = [],
         warnings = [''entries_fetch_error''], error = Some (PostgrestError msg)\<rparr>,
        db\<lparr>faults := fs\<rparr>)"
  by (simp add: getAggregate_def select_entries_def request_def)

theorem getAggregate_fetch_error_witness:
  "faults (ex_db\<lparr>faults := [Some ''timeout'']\<rparr>) = Some ''timeout'' # []
   \<and> getAggregate (ex_db\<lparr>faults := [Some ''timeout'']\<rparr>) 7 =
       (\<lparr>baseSeconds = 0, runningEntry = None, entries = [],
         warnings = [''entries_fetch_error''], error = Some (PostgrestError ''timeout'')\<rparr>,
        ex_db)"
  using getAggregate_fetch_error [of "ex_db\<lparr>faults := [Some ''timeout'']\<rparr>" "''timeout''" "[]" 7]
  by (simp add: ex_defs)

section \<open>Stopping an entry\<close>

lemma round_seconds_div: "round_seconds a b = (b - a + 500) div 1000"
proof -
  have "(of_int (b - a) / 1000 + 1 / 2 :: rat) = of_int (b - a + 500) / of_int 1000"
    by (simp add: field_simps)
  then show ?thesis
    unfolding round_seconds_def Math_round_def
    by (simp only: floor_divide_of_int_eq)
qed

lemma request_ok:
  assumes "requests_ok (Suc n) db"
  shows "request db = (None, db\<lparr>faults := tl (faults db)\<rparr>)"
    and "requests_ok n (db\<lparr>faults := tl (faults db)\<rparr>)"
  using assms
  by (cases db; cases "faults db"; simp add: request_def requests_ok_def)+

lemma requests_ok_split:
  assumes "requests_ok (m + n) db"
  shows "requests_ok m db" and "requests_ok n (db\<lparr>faults := drop m (faults db)\<rparr>)"
  using assms by (simp_all add: requests_ok_def take_add)

lemma tl_tl_drop: "tl (tl xs) = drop 2 xs"
  by (simp add: numeral_2_eq_2 drop_Suc)

lemma find_stamp:
  "find (\<lambda>r. id_entry r = i)
     (map (\<lambda>r. if id_entry r = i then r\<lparr>end_at := x, duration_seconds := y\<rparr> else r) rows)
   = map_option (\<lambda>r. r\<lparr>end_at := x, duration_seconds := y\<rparr>) (find (\<lambda>r. id_entry r = i) rows)"
  by (induction rows) auto

lemma find_stamp': 
  "find (\<lambda>r. id_entry r = i) (stamp i x y rows)
   = map_option (\<lambda>r. r\<lparr>end_at := x, duration_seconds := y\<rparr>) (find (\<lambda>r. id_entry r = i) rows)"
  by (simp add: stamp_def find_stamp)

lemma stamp_twice: "stamp i x y (stamp i x' y' rows) = stamp i x y rows"
  by (induction rows) (auto simp: stamp_def)

lemma stamp_absent:
  "find (\<lambda>r. id_entry r = i) rows = None \<Longrightarrow> stamp i x y rows = rows"
  by (induction rows) (auto simp: stamp_def split: if_splits)

lemma stopEntry_found:
  assumes ok: "requests_ok 2 db"
    and found: "find (\<lambda>r. id_entry r = entryId) (time_entries db) = Some existing"
  shows "stopEntry db entryId endAtIso now =
           (let e = resolve_end endAtIso now;
                d = max 0 (round_seconds (start_at existing) e)
            in (\<lparr>data = Some (existing\<lparr>end_at := Some e, duration_seconds := Some d\<rparr>),
                 error_reply = None\<rparr>,
                db\<lparr>time_entries := stamp entryId (Some e) (Some d) (time_entries db),
                   faults := tl (tl (faults db))\<rparr>))"
proof -
  from ok have ok': "requests_ok (Suc (Suc 0)) db" by (simp add: numeral_2_eq_2)
  note r1 = request_ok [OF ok']
  note r2 = request_ok [OF r1(2)]
  show ?thesis
    using found r1(1) r2(1)
    by (simp add: stopEntry_def select_entry_def update_entry_def Let_def find_stamp stamp_def)
qed

lemma stopEntry_absent:
  assumes "find (\<lambda>r. id_entry r = entryId) (time_entries db) = None"
  shows "stopEntry db entryId endAtIso now =
           (\<lparr>data = None,
              error_reply = Some (case faults db of Some msg # _ \<Rightarrow> PostgrestError msg
                                  | _ \<Rightarrow> Error ''Entry not found'')\<rparr>,
            db\<lparr>faults := tl (faults db)\<rparr>)"
  using assms
  by (cases db; cases "faults db")
     (auto simp: stopEntry_def select_entry_def request_def Let_def split: option.splits)

lemma stopEntry_tables:
  "time_entries (snd (stopEntry db entryId endAtIso now)) = time_entries db
   \<or> (\<exists>existing. find (\<lambda>r. id_entry r = entryId) (time_entries db) = Some existing \<and>
         time_entries (snd (stopEntry db entryId endAtIso now)) =
          stamp entryId (Some (resolve_end endAtIso now))
            (Some (max 0 (round_seconds (start_at existing) (resolve_end endAtIso now))))
            (time_entries db))"
  by (auto simp: stopEntry_def select_entry_def update_entry_def request_def Let_def stamp_def
      split: option.splits list.splits)

lemma stopEntry_tasks:
  "tasks (snd (stopEntry db entryId endAtIso now)) = tasks db"
  by (auto simp: stopEntry_def select_entry_def update_entry_def request_def Let_def
      split: option.splits list.splits)

text \<open>
  Claim C6. For a stored entry and any end time \<open>e\<close> (the override, or the clock when
  there is none), the duration that \<^verbatim>\<open>stopEntry\<close> computes is
  \<open>max 0 (Math_round ((e - start_at) / 1000))\<close>: an integer, never negative, and 0
  when \<open>e\<close> is not after \<^verbatim>\<open>start_at\<close>. The table afterwards is either unchanged (a
  request failed) or has \<^verbatim>\<open>end_at\<close> and \<^verbatim>\<open>duration_seconds\<close> of that row written
  together; when both requests succeed it is the latter, and the updated row is
  returned.
\<close>

theorem stopEntry_duration:
  assumes found: "find (\<lambda>r. id_entry r = entryId) (time_entries db) = Some existing"
  shows "(let e = resolve_end endAtIso now;
              d = max 0 (Math_round (of_int (e - start_at existing) / 1000))
          in 0 \<le> d
             \<and> (e \<le> start_at existing \<longrightarrow> d = 0)
             \<and> (time_entries (snd (stopEntry db entryId endAtIso now)) = time_entries db
                 \<or> time_entries (snd (stopEntry db entryId endAtIso now))
                     = stamp entryId (Some e) (Some d) (time_entries db))
             \<and> (requests_ok 2 db \<longrightarrow>
                  data (fst (stopEntry db entryId endAtIso now))
                    = Some (existing\<lparr>end_at := Some e, duration_seconds := Some d\<rparr>)
                  \<and> time_entries (snd (stopEntry db entryId endAtIso now))
                    = stamp entryId (Some e) (Some d) (time_entries db)))"
proof -
  have rs: "Math_round (of_int (e - start_at existing) / 1000)
              = round_seconds (start_at existing) e" for e
    by (simp only: round_seconds_def)
  have early: "round_seconds (start_at existing) e \<le> 0" if "e \<le> start_at existing" for e
    using that by (simp add: round_seconds_div)
  have written: "requests_ok 2 db \<Longrightarrow>
      stopEntry db entryId endAtIso now =
        (\<lparr>data = Some (existing\<lparr>end_at := Some (resolve_end endAtIso now),
             duration_seconds := Some (max 0 (round_seconds (start_at existing)
                                               (resolve_end endAtIso now)))\<rparr>),
           error_reply = None\<rparr>,
         db\<lparr>time_entries := stamp entryId (Some (resolve_end endAtIso now))
              (Some (max 0 (round_seconds (start_at existing) (resolve_end endAtIso now))))
              (time_entries db),
            faults := tl (tl (faults db))\<rparr>)"
    using stopEntry_found [OF _ found, of endAtIso now] by (simp add: Let_def)
  show ?thesis
    unfolding rs Let_def
    using early [of "resolve_end endAtIso now"] written
      stopEntry_tables [of db entryId endAtIso now] found
    by auto
qed

theorem stopEntry_duration_witness:
  "find (\<lambda>r. id_entry r = 4) (time_entries ex_db) = Some ex_running
   \<and> requests_ok 2 ex_db
   \<and> data (fst (stopEntry ex_db 4 (Some 5000000) 0))
       = Some (ex_running\<lparr>end_at := Some 5000000, duration_seconds := Some 0\<rparr>)
   \<and> data (fst (stopEntry ex_db 4 None 6001500))
       = Some (ex_running\<lparr>end_at := Some 6001500, duration_seconds := Some 2\<rparr>)"
proof -
  have found: "find (\<lambda>r. id_entry r = 4) (time_entries ex_db) = Some ex_running"
    by (simp add: ex_defs)
  have ok: "requests_ok 2 ex_db"
    by (simp add: requests_ok_def ex_defs)
  show ?thesis
    using found ok
      stopEntry_duration [OF found, of "Some 5000000" 0, unfolded Let_def,
        folded round_seconds_def]
      stopEntry_duration [OF found, of None 6001500, unfolded Let_def,
        folded round_seconds_def]
    by (simp add: resolve_end_def round_seconds_div ex_running_def)
qed

text \<open>
  Claim C9. When no row has the given id, \<^verbatim>\<open>stopEntry\<close> returns \<^verbatim>\<open>data: null\<close> and an
  error, which is \<^verbatim>\<open>Entry not found\<close> whenever the fetch itself went through. Only
  the fetch request is made, no update: both tables are as before.
\<close>

theorem stopEntry_not_found:
  assumes absent: "find (\<lambda>r. id_entry r = entryId) (time_entries db) = None"
  shows "data (fst (stopEntry db entryId endAtIso now)) = None
         \<and> error_reply (fst (stopEntry db entryId endAtIso now)) \<noteq> None
         \<and> (requests_ok 1 db \<longrightarrow>
              error_reply (fst (stopEntry db entryId endAtIso now))
                = Some (Error ''Entry not found''))
         \<and> time_entries (snd (stopEntry db entryId endAtIso now)) = time_entries db
         \<and> tasks (snd (stopEntry db entryId endAtIso now)) = tasks db
         \<and> faults (snd (stopEntry db entryId endAtIso now)) = tl (faults db)"
  unfolding stopEntry_absent [OF absent]
  by (cases "faults db") (auto simp: requests_ok_def split: option.splits)

theorem stopEntry_not_found_witness:
  "find (\<lambda>r. id_entry r = 99) (time_entries ex_db) = None
   \<and> requests_ok 1 ex_db
   \<and> fst (stopEntry ex_db 99 None 0)
       = \<lparr>data = None, error_reply = Some (Error ''Entry not found'')\<rparr>
   \<and> time_entries (snd (stopEntry ex_db 99 None 0)) = time_entries ex_db"
proof -
  have absent: "find (\<lambda>r. id_entry r = 99) (time_entries ex_db) = None"
    by (simp add: ex_defs)
  have ok: "requests_ok 1 ex_db"
    by (simp add: requests_ok_def ex_defs)
  have "fst (stopEntry ex_db 99 None 0)
          = \<lparr>data = data (fst (stopEntry ex_db 99 None 0)),
             error_reply = error_reply (fst (stopEntry ex_db 99 None 0))\<rparr>"
    by simp
  then show ?thesis
    using absent ok stopEntry_not_found [OF absent, of None 0] by simp
qed

text \<open>
  Claim C10. What \<^verbatim>\<open>stopEntry\<close> writes is computed from \<^verbatim>\<open>start_at\<close> and the end time
  only. The \<^verbatim>\<open>end_at\<close> and \<^verbatim>\<open>duration_seconds\<close> already stored on the row are not
  read: replacing them by any other values \<open>x\<close>, \<open>y\<close> before the call changes neither
  the reply nor the resulting table. They are overwritten without condition, so a
  row that was already closed ends up with the new end time and the duration
  recomputed from it.
\<close>

theorem stopEntry_overwrites:
  assumes ok: "requests_ok 2 db"
  shows "fst (stopEntry (db\<lparr>time_entries := stamp entryId x y (time_entries db)\<rparr>)
                entryId endAtIso now)
           = fst (stopEntry db entryId endAtIso now)
         \<and> time_entries (snd (stopEntry (db\<lparr>time_entries := stamp entryId x y (time_entries db)\<rparr>)
                                 entryId endAtIso now))
           = time_entries (snd (stopEntry db entryId endAtIso now))
         \<and> (find (\<lambda>r. id_entry r = entryId) (time_entries db) = Some existing \<longrightarrow>
              find (\<lambda>r. id_entry r = entryId)
                (time_entries (snd (stopEntry db entryId endAtIso now)))
              = Some (existing\<lparr>end_at := Some (resolve_end endAtIso now),
                               duration_seconds :=
                                 Some (max 0 (round_seconds (start_at existing)
                                                (resolve_end endAtIso now)))\<rparr>))"
proof (cases "find (\<lambda>r. id_entry r = entryId) (time_entries db)")
  case None
  then have "stamp entryId x y (time_entries db) = time_entries db"
    by (rule stamp_absent)
  moreover have "db\<lparr>time_entries := time_entries db\<rparr> = db" by simp
  ultimately show ?thesis using None by simp
next
  case (Some ex)
  let ?db' = "db\<lparr>time_entries := stamp entryId x y (time_entries db)\<rparr>"
  have ok': "requests_ok 2 ?db'" using ok by (simp add: requests_ok_def)
  have found': "find (\<lambda>r. id_entry r = entryId) (time_entries ?db')
                  = Some (ex\<lparr>end_at := x, duration_seconds := y\<rparr>)"
    using Some by (simp add: find_stamp')
  show ?thesis
    using stopEntry_found [OF ok Some, of endAtIso now]
          stopEntry_found [OF ok' found', of endAtIso now] Some
    by (simp add: Let_def stamp_twice find_stamp')
qed

theorem stopEntry_overwrites_witness:
  "requests_ok 2 ex_db
   \<and> find (\<lambda>r. id_entry r = 1) (time_entries ex_db) = Some ex_closed
   \<and> end_at ex_closed = Some 3600000 \<and> duration_seconds ex_closed = Some 3600
   \<and> find (\<lambda>r. id_entry r = 1) (time_entries (snd (stopEntry ex_db 1 (Some 7200000) 0)))
       = Some (ex_closed\<lparr>end_at := Some 7200000, duration_seconds := Some 7200\<rparr>)"
proof -
  have ok: "requests_ok 2 ex_db"
    by (simp add: requests_ok_def ex_defs)
  have found: "find (\<lambda>r. id_entry r = 1) (time_entries ex_db) = Some ex_closed"
    by (simp add: ex_defs)
  show ?thesis
    using ok found
      stopEntry_overwrites [OF ok, of 1 None None "Some 7200000" 0 ex_closed]
    by (simp add: resolve_end_def round_seconds_div ex_closed_def)
qed

text \<open>
  Claim C2, as stated, fails: without an override each call reads the clock, so a
  second call ten seconds later returns a duration ten seconds longer.
\<close>

theorem stopEntry_twice_counterexample:
  "find (\<lambda>r. id_entry r = 4) (time_entries ex_db) = Some ex_running
   \<and> Option.bind (data (fst (stopEntry ex_db 4 None 6010000))) duration_seconds = Some 10
   \<and> Option.bind (data (fst (stopEntry (snd (stopEntry ex_db 4 None 6010000)) 4 None 6020000)))
       duration_seconds = Some 20"
  by (simp add: stopEntry_def select_entry_def update_entry_def request_def Let_def
      resolve_end_def round_seconds_div ex_defs)

text \<open>
  Claim C2, amended. Two calls in sequence on a stored entry that resolve the same end
  time (the same \<^verbatim>\<open>endAtOverride\<close> given to both, or the clock reading the same
  instant) return the same reply, hence the same \<^verbatim>\<open>duration_seconds\<close>, and leave the
  same table.
\<close>

theorem stopEntry_same_end_idempotent:
  assumes found: "find (\<lambda>r. id_entry r = entryId) (time_entries db) = Some existing"
    and ok: "requests_ok 4 db"
    and same: "resolve_end endAtIso2 now2 = resolve_end endAtIso1 now1"
  shows "fst (stopEntry (snd (stopEntry db entryId endAtIso1 now1)) entryId endAtIso2 now2)
           = fst (stopEntry db entryId endAtIso1 now1)
         \<and> time_entries (snd (stopEntry (snd (stopEntry db entryId endAtIso1 now1))
                                 entryId endAtIso2 now2))
           = time_entries (snd (stopEntry db entryId endAtIso1 now1))"
proof -
  let ?e = "resolve_end endAtIso1 now1"
  let ?d = "max 0 (round_seconds (start_at existing) ?e)"
  let ?db1 = "snd (stopEntry db entryId endAtIso1 now1)"
  from ok have "requests_ok (2 + 2) db" by simp
  note oks = requests_ok_split [OF this]
  note ok2 = oks(1)
  note first = stopEntry_found [OF ok2 found, of endAtIso1 now1]
  have found1: "find (\<lambda>r. id_entry r = entryId) (time_entries ?db1)
                  = Some (existing\<lparr>end_at := Some ?e, duration_seconds := Some ?d\<rparr>)"
    using first found by (simp add: Let_def find_stamp')
  have ok1: "requests_ok 2 ?db1"
    using oks(2) first by (simp add: Let_def tl_tl_drop requests_ok_def)
  show ?thesis
    using stopEntry_found [OF ok1 found1, of endAtIso2 now2] first same
    by (simp add: Let_def stamp_twice)
qed

theorem stopEntry_same_end_idempotent_witness:
  "find (\<lambda>r. id_entry r = 4) (time_entries ex_db) = Some ex_running
   \<and> requests_ok 4 ex_db
   \<and> resolve_end (Some 6010000) 6020000 = resolve_end (Some 6010000) 6015000
   \<and> fst (stopEntry (snd (stopEntry ex_db 4 (Some 6010000) 6015000)) 4 (Some 6010000) 6020000)
       = fst (stopEntry ex_db 4 (Some 6010000) 6015000)
   \<and> time_entries (snd (stopEntry (snd (stopEntry ex_db 4 (Some 6010000) 6015000)) 4
                           (Some 6010000) 6020000))
       = time_entries (snd (stopEntry ex_db 4 (Some 6010000) 6015000))"
proof -
  have found: "find (\<lambda>r. id_entry r = 4) (time_entries ex_db) = Some ex_running"
    by (simp add: ex_defs)
  have ok: "requests_ok 4 ex_db"
    by (simp add: requests_ok_def ex_defs)
  have same: "resolve_end (Some 6010000) 6020000 = resolve_end (Some 6010000) 6015000"
    by (simp add: resolve_end_def)
  show ?thesis
    using found ok same stopEntry_same_end_idempotent [OF found ok same] by simp
qed

section \<open>The displayed time\<close>

lemma round_seconds_whole: "b - a = 1000 * k \<Longrightarrow> round_seconds a b = k"
  by (simp add: round_seconds_div)

text \<open>
  Claim C7. \<^verbatim>\<open>runningSegment\<close> is the time from \<^verbatim>\<open>start_at\<close> of the running entry to
  now in seconds, rounded to the nearest whole second (exactly \<open>k\<close> when the
  difference is \<open>k\<close> whole seconds), and 0 without a running entry;
  \<^verbatim>\<open>elapsed = base + runningSegment\<close>; with a target \<open>t\<close> the countdown shows
  \<open>max 0 (t - elapsed)\<close>. With base 1800, target 3600 and an entry started 300
  seconds ago, 1500 remain.
\<close>

theorem computeRemaining_display:
  "runningSegment (computeRemaining (Some e) base target now)
     = (if end_at e = None then Math_round (of_int (now - start_at e) / 1000) else 0)
   \<and> runningSegment (computeRemaining None base target now) = 0
   \<and> (end_at e = None \<and> now - start_at e = 1000 * k \<longrightarrow>
        runningSegment (computeRemaining (Some e) base target now) = k)
   \<and> elapsed (computeRemaining entry base target now)
       = base + runningSegment (computeRemaining entry base target now)
   \<and> remaining (computeRemaining entry base (Some t) now)
       = max 0 (t - elapsed (computeRemaining entry base (Some t) now))
   \<and> displayAt (entry, base, Some t) now
       = max 0 (t - elapsed (computeRemaining entry base (Some t) now))
   \<and> (end_at e = None \<and> start_at e = now - 300000 \<longrightarrow>
        remaining (computeRemaining (Some e) 1800 (Some 3600) now) = 1500)"
proof -
  have rs: "Math_round (of_int (now - start_at e) / 1000) = round_seconds (start_at e) now"
    by (simp only: round_seconds_def)
  have whole: "round_seconds (start_at e) now = k" if "now - start_at e = 1000 * k"
    using that by (rule round_seconds_whole)
  have inst: "round_seconds (now - 300000) now = 300"
    by (simp add: round_seconds_div)
  show ?thesis
    unfolding rs using whole inst
    by (simp add: computeRemaining_def displayAt_def Let_def)
qed

theorem computeRemaining_display_witness:
  "end_at ex_running = None \<and> 6300000 - start_at ex_running = 1000 * 300
   \<and> start_at ex_running = 6300000 - 300000
   \<and> computeRemaining (Some ex_running) 1800 (Some 3600) 6300000
       = \<lparr>remaining = 1500, elapsed = 2100, runningSegment = 300\<rparr>"
proof -
  have shape: "computeRemaining (Some ex_running) 1800 (Some 3600) 6300000
      = \<lparr>remaining = remaining (computeRemaining (Some ex_running) 1800 (Some 3600) 6300000),
         elapsed = elapsed (computeRemaining (Some ex_running) 1800 (Some 3600) 6300000),
         runningSegment =
           runningSegment (computeRemaining (Some ex_running) 1800 (Some 3600) 6300000)\<rparr>"
    by simp
  have hyps: "end_at ex_running = None" "6300000 - start_at ex_running = 1000 * 300"
    "start_at ex_running = 6300000 - 300000"
    by (simp_all add: ex_defs)
  show ?thesis
    using hyps
      computeRemaining_display [where e = ex_running and base = 1800 and target = "Some 3600"
        and now = 6300000 and k = 300 and entry = "Some ex_running" and t = 3600]
    by (subst shape) simp
qed

section \<open>Starting\<close>

lemma request_tables:
  "time_entries (snd (request db)) = time_entries db"
  "tasks (snd (request db)) = tasks db"
  "faults (snd (request db)) = tl (faults db)"
  by (simp_all add: request_def split: list.splits)

lemma getAggregate_tables:
  "time_entries (snd (getAggregate db taskId)) = time_entries db"
  "tasks (snd (getAggregate db taskId)) = tasks db"
  "faults (snd (getAggregate db taskId)) = tl (faults db)"
  by (auto simp: getAggregate_def select_entries_def request_def
      split: list.splits option.splits)

lemma reloadAggregate_tables:
  "time_entries (snd (reloadAggregate ui db t)) = time_entries db"
  "tasks (snd (reloadAggregate ui db t)) = tasks db"
  "faults (snd (reloadAggregate ui db t)) = tl (faults db)"
  using getAggregate_tables [of db "id_task t"]
  by (cases "getAggregate db (id_task t)"; simp add: reloadAggregate_def)+

lemma update_task_status_tables:
  "time_entries (snd (update_task_status db taskId s)) = time_entries db"
  "faults (snd (update_task_status db taskId s)) = tl (faults db)"
  by (auto simp: update_task_status_def request_def split: list.splits option.splits)

lemma update_task_estimate_tables:
  "time_entries (snd (update_task_estimate db taskId n)) = time_entries db"
  by (auto simp: update_task_estimate_def request_def split: list.splits option.splits)

lemma update_task_status_ok:
  assumes "requests_ok 1 db"
  shows "tasks (snd (update_task_status db taskId s))
           = map (\<lambda>k. if id_task k = taskId then k\<lparr>status := s\<rparr> else k) (tasks db)"
  using request_ok(1) [of 0 db] assms by (simp add: update_task_status_def)

lemma tl3_drop: "tl (tl (tl xs)) = drop 3 xs"
  by (simp add: numeral_3_eq_3 drop_Suc)

lemma sort_key_last_max:
  assumes "xs \<noteq> []"
  shows "sort_key f xs ! (length (sort_key f xs) - 1) \<in> set xs
         \<and> (\<forall>y\<in>set xs. f y \<le> f (sort_key f xs ! (length (sort_key f xs) - 1)))"
proof -
  let ?s = "sort_key f xs"
  let ?n = "length ?s - 1"
  from assms have pos: "0 < length ?s" by simp
  then have "?n < length ?s" by simp
  then have "?s ! ?n \<in> set ?s" by (rule nth_mem)
  then have mem: "?s ! ?n \<in> set xs" by simp
  have "f y \<le> f (?s ! ?n)" if "y \<in> set xs" for y
  proof -
    from that have "y \<in> set ?s" by simp
    then obtain i where i: "i < length ?s" "?s ! i = y"
      by (metis in_set_conv_nth)
    have "sorted (map f ?s)" by (rule sorted_sort_key)
    moreover have "i \<le> ?n" "?n < length (map f ?s)" using i(1) pos by simp_all
    ultimately have "map f ?s ! i \<le> map f ?s ! ?n" by (rule sorted_nth_mono)
    with i pos show ?thesis by simp
  qed
  with mem show ?thesis by blast
qed

lemma createEntry_open:
  assumes "open_entries db taskId \<noteq> []"
  shows "time_entries (snd (createEntry db taskId now)) = time_entries db"
    and "\<not> created (fst (createEntry db taskId now))"
    and "requests_ok 1 db \<Longrightarrow>
           \<exists>r. data (fst (createEntry db taskId now)) = Some r
              \<and> r \<in> set (open_entries db taskId)
              \<and> (\<forall>y\<in>set (open_entries db taskId). start_at y \<le> start_at r)"
proof -
  show "time_entries (snd (createEntry db taskId now)) = time_entries db"
    using assms
    by (cases "faults db")
       (auto simp: createEntry_def select_running_def request_def open_entries_def
          split: option.splits)
  show "\<not> created (fst (createEntry db taskId now))"
    using assms
    by (cases "faults db")
       (auto simp: createEntry_def select_running_def request_def open_entries_def
          split: option.splits)
  assume "requests_ok 1 db"
  then have "request db = (None, db\<lparr>faults := tl (faults db)\<rparr>)"
    using request_ok(1) [of 0 db] by simp
  then have "data (fst (createEntry db taskId now))
      = Some (sort_key start_at (open_entries db taskId)
               ! (length (sort_key start_at (open_entries db taskId)) - 1))"
    using assms
    by (simp add: createEntry_def select_running_def open_entries_def)
  with sort_key_last_max [OF assms, of start_at]
  show "\<exists>r. data (fst (createEntry db taskId now)) = Some r
              \<and> r \<in> set (open_entries db taskId)
              \<and> (\<forall>y\<in>set (open_entries db taskId). start_at y \<le> start_at r)"
    by simp
qed

lemma createEntry_tables:
  "time_entries (snd (createEntry db taskId now)) = time_entries db
   \<or> (open_entries db taskId = []
       \<and> time_entries (snd (createEntry db taskId now))
           = time_entries db @ [\<lparr>id_entry = fresh_id (time_entries db), task_id = taskId,
                                  start_at = now, end_at = None, duration_seconds = None\<rparr>])"
  by (cases "faults db"; cases "tl (faults db)")
     (auto simp: createEntry_def select_running_def insert_entry_def request_def
        open_entries_def Let_def split: option.splits)

lemma createEntry_cong:
  "time_entries db1 = time_entries db \<Longrightarrow>
   time_entries (snd (createEntry db1 taskId now)) = time_entries db
   \<or> (open_entries db taskId = []
       \<and> time_entries (snd (createEntry db1 taskId now))
           = time_entries db @ [\<lparr>id_entry = fresh_id (time_entries db), task_id = taskId,
                                  start_at = now, end_at = None, duration_seconds = None\<rparr>])"
  using createEntry_tables [of db1 taskId now] by (simp add: open_entries_def)

lemma handleStart_tables:
  "time_entries (snd (handleStart ui db t now)) = time_entries db
   \<or> (open_entries db (id_task t) = []
       \<and> time_entries (snd (handleStart ui db t now))
           = time_entries db @ [\<lparr>id_entry = fresh_id (time_entries db), task_id = id_task t,
                                  start_at = now, end_at = None, duration_seconds = None\<rparr>])"
proof (cases "getEffectiveTarget ui t")
  case None
  then show ?thesis by (simp add: handleStart_def)
next
  case (Some target)
  obtain agg db1 where g: "getAggregate db (id_task t) = (agg, db1)"
    by (cases "getAggregate db (id_task t)")
  then have db1: "time_entries db1 = time_entries db"
    using getAggregate_tables(1) [of db "id_task t"] by simp
  show ?thesis
  proof (cases "target = 0 \<or> max 0 (target - baseSeconds agg) \<le> 0")
    case True
    then show ?thesis
      using Some g db1
      by (auto simp: handleStart_def Let_def reloadAggregate_tables update_task_status_tables
          split: prod.splits)
         (metis reloadAggregate_tables(1) snd_conv update_task_status_tables(1))+
  next
    case False
    obtain r db2 where c: "createEntry db1 (id_task t) now = (r, db2)"
      by (cases "createEntry db1 (id_task t) now")
    from createEntry_cong [OF db1, of "id_task t" now] c
    have "time_entries db2 = time_entries db
          \<or> (open_entries db (id_task t) = []
              \<and> time_entries db2
                  = time_entries db @ [\<lparr>id_entry = fresh_id (time_entries db),
                       task_id = id_task t, start_at = now, end_at = None,
                       duration_seconds = None\<rparr>])"
      by simp
    then show ?thesis
      using False Some g c
      by (auto simp: handleStart_def Let_def update_task_estimate_tables split: option.splits)
  qed
qed

text \<open>
  Claim C3. With a positive target that the freshly read \<^verbatim>\<open>baseSeconds\<close> already
  reaches (\<open>target - baseSeconds \<le> 0\<close>), \<^verbatim>\<open>handleStart\<close> creates no entry: the
  \<^verbatim>\<open>time_entries\<close> table is as before. It makes exactly three requests (the read,
  the update of the task, the reload), and when the update goes through the task has
  status \<^verbatim>\<open>completed\<close>.
\<close>

theorem handleStart_already_complete:
  assumes tgt: "getEffectiveTarget ui t = Some target"
    and pos: "0 < target"
    and fulfilled: "target - baseSeconds (fst (getAggregate db (id_task t))) \<le> 0"
  shows "time_entries (snd (handleStart ui db t now)) = time_entries db
         \<and> faults (snd (handleStart ui db t now)) = drop 3 (faults db)
         \<and> (requests_ok 2 db \<longrightarrow>
              tasks (snd (handleStart ui db t now))
                = map (\<lambda>k. if id_task k = id_task t then k\<lparr>status := ''completed''\<rparr> else k)
                    (tasks db))"
proof -
  obtain agg db1 where g: "getAggregate db (id_task t) = (agg, db1)"
    by (cases "getAggregate db (id_task t)")
  obtain err db2 where u: "update_task_status db1 (id_task t) ''completed'' = (err, db2)"
    by (cases "update_task_status db1 (id_task t) ''completed''")
  from g have db1: "time_entries db1 = time_entries db" "tasks db1 = tasks db"
    "faults db1 = tl (faults db)"
    using getAggregate_tables [of db "id_task t"] by simp_all
  from u have db2: "time_entries db2 = time_entries db1" "faults db2 = tl (faults db1)"
    using update_task_status_tables [of db1 "id_task t" "''completed''"] by simp_all
  from fulfilled g have "max 0 (target - baseSeconds agg) \<le> 0" by simp
  with tgt pos g u have run: "handleStart ui db t now = reloadAggregate ui db2 t"
    by (simp add: handleStart_def Let_def)
  have "tasks db2 = map (\<lambda>k. if id_task k = id_task t then k\<lparr>status := ''completed''\<rparr> else k)
                      (tasks db)" if ok: "requests_ok 2 db"
  proof -
    from ok have "requests_ok (1 + 1) db" by (simp add: numeral_2_eq_2)
    from requests_ok_split(2) [OF this] db1(3) have "requests_ok 1 db1"
      by (simp add: requests_ok_def drop_Suc)
    from update_task_status_ok [OF this, of "id_task t" "''completed''"] u db1(2)
    show ?thesis by simp
  qed
  with run db1 db2 show ?thesis
    by (simp add: reloadAggregate_tables tl3_drop)
qed

theorem handleStart_already_complete_witness:
  "getEffectiveTarget ex_ui ex_task = Some 3000 \<and> (0::int) < 3000
   \<and> 3000 - baseSeconds (fst (getAggregate ex_done_db (id_task ex_task))) \<le> 0
   \<and> requests_ok 2 ex_done_db
   \<and> time_entries (snd (handleStart ex_ui ex_done_db ex_task 9000000)) = [ex_closed]
   \<and> tasks (snd (handleStart ex_ui ex_done_db ex_task 9000000))
       = [ex_task\<lparr>status := ''completed''\<rparr>]"
proof -
  have tgt: "getEffectiveTarget ex_ui ex_task = Some 3000"
    by (simp add: getEffectiveTarget_def ex_defs)
  have pos: "(0::int) < 3000" by simp
  have base: "baseSeconds (fst (getAggregate ex_done_db (id_task ex_task))) = 3600"
    by (simp add: getAggregate_def select_entries_def request_def aggregate_rows_def
        runningRows_def sumBase_def ex_defs)
  then have fulfilled:
    "3000 - baseSeconds (fst (getAggregate ex_done_db (id_task ex_task))) \<le> 0"
    by simp
  have ok: "requests_ok 2 ex_done_db"
    by (simp add: requests_ok_def ex_defs)
  show ?thesis
    using tgt fulfilled ok
      handleStart_already_complete [OF tgt pos fulfilled, of 9000000]
    by (simp add: ex_done_db_def ex_task_def)
qed

subsection \<open>At most one open entry\<close>

lemma at_most_one_open_iff:
  "at_most_one_open db \<longleftrightarrow> (\<forall>taskId. length (open_entries db taskId) \<le> 1)"
proof
  assume a: "at_most_one_open db"
  show "\<forall>taskId. length (open_entries db taskId) \<le> 1"
  proof
    fix taskId
    show "length (open_entries db taskId) \<le> 1"
    proof (cases "open_entries db taskId")
      case Nil
      then show ?thesis by simp
    next
      case (Cons r rs)
      then have "r \<in> set (open_entries db taskId)" by simp
      then have "r \<in> set (time_entries db)" "task_id r = taskId"
        by (simp_all add: open_entries_def)
      with a show ?thesis by (auto simp: at_most_one_open_def list_all_iff)
    qed
  qed
next
  assume "\<forall>taskId. length (open_entries db taskId) \<le> 1"
  then show "at_most_one_open db" by (simp add: at_most_one_open_def list_all_iff)
qed

lemma open_after_stamp:
  "length (filter (\<lambda>r. task_id r = taskId \<and> end_at r = None) (stamp i (Some e) y rows))
   \<le> length (filter (\<lambda>r. task_id r = taskId \<and> end_at r = None) rows)"
  by (induction rows) (auto simp: stamp_def)

lemma keep_unchanged:
  assumes "at_most_one_open db" and "time_entries db' = time_entries db"
  shows "at_most_one_open db'"
  using assms by (simp add: at_most_one_open_iff open_entries_def)

lemma keep_appended:
  assumes inv: "at_most_one_open db"
    and none: "open_entries db taskId = []"
    and app: "time_entries db' = time_entries db @ [\<lparr>id_entry = i, task_id = taskId,
                 start_at = now, end_at = None, duration_seconds = None\<rparr>]"
  shows "at_most_one_open db'"
  unfolding at_most_one_open_iff
proof
  fix k
  from inv have "length (open_entries db k) \<le> 1" by (simp add: at_most_one_open_iff)
  with none app show "length (open_entries db' k) \<le> 1"
    by (cases "k = taskId") (simp_all add: open_entries_def)
qed

lemma keep_stamped:
  assumes inv: "at_most_one_open db"
    and st: "time_entries db' = stamp i (Some e) y (time_entries db)"
  shows "at_most_one_open db'"
  unfolding at_most_one_open_iff
proof
  fix k
  from inv have "length (open_entries db k) \<le> 1" by (simp add: at_most_one_open_iff)
  with open_after_stamp [of k i e y "time_entries db"] st
  show "length (open_entries db' k) \<le> 1" by (simp add: open_entries_def)
qed

lemma keep_stopEntry:
  assumes "at_most_one_open db"
  shows "at_most_one_open (snd (stopEntry db entryId endAtIso now))"
  using stopEntry_tables [of db entryId endAtIso now] assms
  by (auto intro: keep_unchanged keep_stamped)

lemma keep_createEntry:
  assumes "at_most_one_open db"
  shows "at_most_one_open (snd (createEntry db taskId now))"
  using createEntry_tables [of db taskId now] assms
  by (auto intro: keep_unchanged keep_appended)

lemma keep_handleStart:
  assumes "at_most_one_open db"
  shows "at_most_one_open (snd (handleStart ui db t now))"
  using handleStart_tables [of ui db t now] assms
  by (auto intro: keep_unchanged keep_appended)

lemma keep_handleStop:
  assumes "at_most_one_open db"
  shows "at_most_one_open (snd (handleStop ui db t now))"
proof (cases "runningEntry_ui ui")
  case None
  with assms show ?thesis by (simp add: handleStop_def)
next
  case (Some re)
  have "time_entries (snd (handleStop ui db t now))
          = time_entries (snd (stopEntry db (id_entry re) None now))"
    using Some by (simp add: handleStop_def reloadAggregate_tables split: prod.splits)
  with keep_stopEntry [OF assms, of "id_entry re" None now] show ?thesis
    by (rule keep_unchanged)
qed

lemma keep_step:
  assumes "step db db'" and "at_most_one_open db"
  shows "at_most_one_open db'"
  using assms
  by (induction rule: step.induct)
     (simp_all add: keep_createEntry keep_stopEntry keep_handleStart keep_handleStop)

lemma keep_steps:
  assumes "step\<^sup>*\<^sup>* db db'" and "at_most_one_open db"
  shows "at_most_one_open db'"
  using assms by (induction rule: rtranclp_induct) (auto intro: keep_step)

text \<open>
  Claim C5. When the task already has an open entry, \<^verbatim>\<open>createEntry\<close> inserts nothing
  and reports \<^verbatim>\<open>created: false\<close>; when its re-check request goes through it returns
  an open entry of the task with the greatest \<^verbatim>\<open>start_at\<close>. \<^verbatim>\<open>handleStart\<close> inserts
  nothing either. \<^verbatim>\<open>createEntry\<close> changes the table only when the task has no open
  entry, and then by appending one running row with \<^verbatim>\<open>start_at = now\<close>. Hence every
  state reached by start and stop calls, one after the other, from a state with at
  most one open entry per task has at most one open entry per task.
\<close>

theorem createEntry_reuses_running:
  "(open_entries db taskId \<noteq> [] \<longrightarrow>
      time_entries (snd (createEntry db taskId now)) = time_entries db
      \<and> \<not> created (fst (createEntry db taskId now))
      \<and> (requests_ok 1 db \<longrightarrow>
           (\<exists>r. data (fst (createEntry db taskId now)) = Some r
               \<and> r \<in> set (time_entries db) \<and> task_id r = taskId \<and> end_at r = None
               \<and> (\<forall>y\<in>set (open_entries db taskId). start_at y \<le> start_at r))))
   \<and> (open_entries db (id_task t) \<noteq> [] \<longrightarrow>
        time_entries (snd (handleStart ui db t now)) = time_entries db)
   \<and> (time_entries (snd (createEntry db taskId now)) \<noteq> time_entries db \<longrightarrow>
        open_entries db taskId = []
        \<and> time_entries (snd (createEntry db taskId now))
            = time_entries db @ [\<lparr>id_entry = fresh_id (time_entries db), task_id = taskId,
                                   start_at = now, end_at = None, duration_seconds = None\<rparr>])
   \<and> (at_most_one_open db \<and> step\<^sup>*\<^sup>* db db' \<longrightarrow> at_most_one_open db')"
proof -
  have latest: "\<exists>r. data (fst (createEntry db taskId now)) = Some r
               \<and> r \<in> set (time_entries db) \<and> task_id r = taskId \<and> end_at r = None
               \<and> (\<forall>y\<in>set (open_entries db taskId). start_at y \<le> start_at r)"
    if "open_entries db taskId \<noteq> []" "requests_ok 1 db"
  proof -
    from createEntry_open(3) [OF that] obtain r where
      r: "data (fst (createEntry db taskId now)) = Some r" "r \<in> set (open_entries db taskId)"
         "\<forall>y\<in>set (open_entries db taskId). start_at y \<le> start_at r"
      by blast
    from r(2) have "r \<in> set (time_entries db)" "task_id r = taskId" "end_at r = None"
      by (simp_all add: open_entries_def)
    with r(1,3) show ?thesis by blast
  qed
  have start: "time_entries (snd (handleStart ui db t now)) = time_entries db"
    if "open_entries db (id_task t) \<noteq> []"
    using handleStart_tables [of ui db t now] that by blast
  have ins: "open_entries db taskId = []
        \<and> time_entries (snd (createEntry db taskId now))
            = time_entries db @ [\<lparr>id_entry = fresh_id (time_entries db), task_id = taskId,
                                   start_at = now, end_at = None, duration_seconds = None\<rparr>]"
    if "time_entries (snd (createEntry db taskId now)) \<noteq> time_entries db"
    using createEntry_tables [of db taskId now] that by blast
  show ?thesis
    using latest start ins createEntry_open(1,2) [of db taskId now] keep_steps [of db db']
    by blast
qed

theorem createEntry_reuses_running_witness:
  "open_entries ex_db 7 \<noteq> [] \<and> requests_ok 1 ex_db
   \<and> open_entries ex_db (id_task ex_task) \<noteq> []
   \<and> data (fst (createEntry ex_db 7 9000000)) = Some ex_running
   \<and> time_entries (snd (createEntry ex_db 7 9000000)) = time_entries ex_db
   \<and> time_entries (snd (handleStart ex_ui ex_db ex_task 9000000)) = time_entries ex_db
   \<and> time_entries (snd (createEntry ex_db 8 9000000)) \<noteq> time_entries ex_db
   \<and> time_entries (snd (createEntry ex_db 8 9000000))
       = time_entries ex_db @ [\<lparr>id_entry = 5, task_id = 8, start_at = 9000000, end_at = None,
                                 duration_seconds = None\<rparr>]
   \<and> at_most_one_open ex_db
   \<and> step\<^sup>*\<^sup>* ex_db (snd (stopEntry (snd (createEntry ex_db 8 9000000)) 4 None 9500000))
   \<and> at_most_one_open (snd (stopEntry (snd (createEntry ex_db 8 9000000)) 4 None 9500000))"
proof -
  let ?db1 = "snd (createEntry ex_db 8 9000000)"
  let ?db2 = "snd (stopEntry ?db1 4 None 9500000)"
  have op: "open_entries ex_db 7 = [ex_running]"
    by (simp add: open_entries_def ex_defs)
  then have open7: "open_entries ex_db 7 \<noteq> []" by simp
  have openT: "open_entries ex_db (id_task ex_task) \<noteq> []"
    using op by (simp add: ex_task_def)
  have ok: "requests_ok 1 ex_db"
    by (simp add: requests_ok_def ex_defs)
  have ins: "time_entries ?db1 \<noteq> time_entries ex_db"
    by (simp add: createEntry_def select_running_def insert_entry_def request_def Let_def
        ex_defs)
  have reused: "data (fst (createEntry ex_db 7 9000000)) = Some ex_running"
    by (simp add: createEntry_def select_running_def request_def ex_defs)
  have fresh: "fresh_id (time_entries ex_db) = 5"
    by (simp add: fresh_id_def ex_defs)
  have inv: "at_most_one_open ex_db"
    by (simp add: at_most_one_open_def open_entries_def ex_defs)
  have "step ex_db ?db1" by (rule step_createEntry)
  moreover have "step ?db1 ?db2" by (rule step_stopEntry)
  ultimately have run: "step\<^sup>*\<^sup>* ex_db ?db2" by simp
  show ?thesis
    using open7 openT ok ins fresh inv run op reused
      createEntry_reuses_running [where db = ex_db and taskId = 7 and now = 9000000
        and t = ex_task and ui = ex_ui and db' = ?db2]
      createEntry_reuses_running [where db = ex_db and taskId = 8 and now = 9000000
        and t = ex_task and ui = ex_ui and db' = ?db2]
    by auto
qed

end
